theory Spec2Isabelle
  imports Main "HOL-Library.Word"
begin

section \<open>Reference-counted handles of rclpy (\<open>_rclpy_handle.c\<close>)\<close>

text \<open>
  The C file keeps a graph of heap-allocated \<open>rclpy_handle_t\<close> records. A record wraps an
  opaque pointer, counts the claims on it, and stores an array of pointers to the handles it
  depends on. The embedding below keeps the C view: pointers are addresses into one store,
  \<open>size_t\<close> is a 64-bit word that wraps around, every access to a pointer that does not
  hold a block of the expected kind stops the run with \<open>Invalid_access\<close>, and a failed
  \<open>assert\<close> stops it with \<open>Assertion_failed\<close>.

  The functions \<open>_rclpy_create_handle\<close>, \<open>_rclpy_handle_add_dependency\<close> and
  \<open>_rclpy_handle_dec_ref\<close> of the source appear without their leading underscore, which
  an Isabelle name cannot start with.
\<close>

subsection \<open>Data model\<close>

type_synonym addr = nat

type_synonym size_t = "64 word"

definition NULL :: addr where
  "NULL = 0"

text \<open>\<open>struct rclpy_handle_t\<close> of \<open>rclpy_handle.h\<close>, field by field.\<close>

record rclpy_handle_t =
  ptr :: addr
  ref_count :: size_t
  dependencies :: addr
  num_of_dependencies :: size_t
  destructor :: addr

text \<open>
  A block of the store is either one handle record or an array of handle pointers (the
  storage behind \<open>dependencies\<close>).
\<close>

datatype block = Handle rclpy_handle_t | Array "addr list"

text \<open>
  What the code does to the outside world, in order: the destructor callbacks it invokes
  (function pointer, argument) and the pointers it hands to \<open>allocator.deallocate\<close>.
\<close>

datatype event = Destructor_call addr addr | Deallocate addr

text \<open>
  The program state. \<open>mem\<close> is the store. \<open>allocator\<close> is the state of the allocator
  returned by \<open>rcutils_get_default_allocator\<close>: the answers it will give to the coming
  allocation requests, \<open>NULL\<close> standing for a request it cannot satisfy; with no answer
  left every request fails. \<open>trace\<close> collects the events.
\<close>

record heap =
  mem :: "addr \<rightharpoonup> block"
  allocator :: "addr list"
  trace :: "event list"

datatype stop = Out_of_fuel | Assertion_failed | Invalid_access

datatype rcutils_ret_t = RCUTILS_RET_OK | RCUTILS_RET_ERROR

subsection \<open>The allocator\<close>

text \<open>
  Modelled from the spec: the rcutils default allocator is not part of the source; it is the
  C library's \<open>calloc\<close>, \<open>realloc\<close> and \<open>free\<close>. A successful request returns an
  address that holds no live block; a failed one returns \<open>NULL\<close> and leaves the store as it
  was; \<open>deallocate\<close> of \<open>NULL\<close> does nothing.
\<close>

definition zero_handle :: rclpy_handle_t where
  "zero_handle =
     \<lparr>ptr = NULL, ref_count = 0, dependencies = NULL, num_of_dependencies = 0,
      destructor = NULL\<rparr>"

definition zero_allocate :: "heap \<Rightarrow> addr \<times> heap" where
  "zero_allocate s =
     (case allocator s of
        [] \<Rightarrow> (NULL, s)
      | p # ps \<Rightarrow>
          if p = NULL \<or> mem s p \<noteq> None then (NULL, s\<lparr>allocator := ps\<rparr>)
          else (p, s\<lparr>mem := (mem s)(p \<mapsto> Handle zero_handle), allocator := ps\<rparr>))"

text \<open>\<open>sizeof(rclpy_handle_t *)\<close> on the 64-bit platform of \<open>size_t\<close>.\<close>

definition sizeof_ptr :: size_t where
  "sizeof_ptr = 8"

text \<open>
  \<open>reallocate old size\<close>: the new block holds \<open>size div sizeof_ptr\<close> pointers, the first
  of them copied from the old block, the others \<open>NULL\<close>. The old block is given up only when
  the request succeeds.
\<close>

definition resize :: "nat \<Rightarrow> addr list \<Rightarrow> addr list" where
  "resize n blk = take n blk @ replicate (n - length blk) NULL"

definition reallocate :: "addr \<Rightarrow> size_t \<Rightarrow> heap \<Rightarrow> stop + addr \<times> heap" where
  "reallocate old sz s =
     (let n = unat sz div unat sizeof_ptr in
      if old = NULL then
        (case allocator s of
           [] \<Rightarrow> Inr (NULL, s)
         | p # ps \<Rightarrow>
             if p = NULL \<or> mem s p \<noteq> None then Inr (NULL, s\<lparr>allocator := ps\<rparr>)
             else Inr (p, s\<lparr>mem := (mem s)(p \<mapsto> Array (resize n [])), allocator := ps\<rparr>))
      else
        (case mem s old of
           Some (Array blk) \<Rightarrow>
             (case allocator s of
                [] \<Rightarrow> Inr (NULL, s)
              | p # ps \<Rightarrow>
                  if p = NULL \<or> (p \<noteq> old \<and> mem s p \<noteq> None)
                  then Inr (NULL, s\<lparr>allocator := ps\<rparr>)
                  else Inr (p, s\<lparr>mem := ((mem s)(old := None))(p \<mapsto> Array (resize n blk)),
                                 allocator := ps\<rparr>))
         | _ \<Rightarrow> Inl Invalid_access))"

definition deallocate :: "addr \<Rightarrow> heap \<Rightarrow> stop + heap" where
  "deallocate p s =
     (if p = NULL then Inr (s\<lparr>trace := trace s @ [Deallocate p]\<rparr>)
      else if mem s p = None then Inl Invalid_access
      else Inr (s\<lparr>mem := (mem s)(p := None), trace := trace s @ [Deallocate p]\<rparr>))"

text \<open>
  A destructor is a callback of the wrapped resource's own library. It sees the opaque
  pointer only: the model records the call and leaves the handle store alone.
\<close>

definition invoke_destructor :: "addr \<Rightarrow> addr \<Rightarrow> heap \<Rightarrow> heap" where
  "invoke_destructor f p s = s\<lparr>trace := trace s @ [Destructor_call f p]\<rparr>"

subsection \<open>\<open>_rclpy_create_handle\<close>\<close>

text \<open>
  The record comes zeroed from \<open>zero_allocate\<close>; the code stores \<open>ptr\<close>, increments the
  zeroed \<open>ref_count\<close> and stores \<open>destructor\<close>. On the \<open>fail\<close> path it hands the null
  pointer to \<open>deallocate\<close> and returns \<open>NULL\<close>.
\<close>

definition rclpy_create_handle :: "addr \<Rightarrow> addr \<Rightarrow> heap \<Rightarrow> stop + addr \<times> heap" where
  "rclpy_create_handle p d s =
     (case zero_allocate s of
        (handle, s1) \<Rightarrow>
          if handle = NULL then
            (case deallocate handle s1 of
               Inl e \<Rightarrow> Inl e
             | Inr s2 \<Rightarrow> Inr (NULL, s2))
          else
            (case mem s1 handle of
               Some (Handle h) \<Rightarrow>
                 Inr (handle,
                      s1\<lparr>mem := (mem s1)(handle \<mapsto>
                            Handle (h\<lparr>ptr := p, ref_count := ref_count h + 1,
                                       destructor := d\<rparr>))\<rparr>)
             | _ \<Rightarrow> Inl Invalid_access))"

subsection \<open>\<open>_rclpy_handle_add_dependency\<close>\<close>

text \<open>
  The statements of the source in their order: the two asserts, the increment of
  \<open>num_of_dependencies\<close>, the reallocation to \<open>num_of_dependencies * sizeof(pointer)\<close>
  bytes (a \<open>size_t\<close> product, which wraps), the early return on \<open>NULL\<close>, the write of the
  last slot, the update of \<open>dependencies\<close> and the increment of the dependency's count.
\<close>

definition rclpy_handle_add_dependency ::
  "addr \<Rightarrow> addr \<Rightarrow> heap \<Rightarrow> stop + rcutils_ret_t \<times> heap" where
  "rclpy_handle_add_dependency dependent dependency s =
     (if dependent = NULL \<or> dependency = NULL then Inl Assertion_failed
      else case mem s dependent of
        Some (Handle h) \<Rightarrow>
          (let h1 = h\<lparr>num_of_dependencies := num_of_dependencies h + 1\<rparr>;
               s1 = s\<lparr>mem := (mem s)(dependent \<mapsto> Handle h1)\<rparr>
           in case reallocate (dependencies h1)
                     (num_of_dependencies h1 * sizeof_ptr) s1 of
                Inl e \<Rightarrow> Inl e
              | Inr (new_dependencies, s2) \<Rightarrow>
                  if new_dependencies = NULL then Inr (RCUTILS_RET_ERROR, s2)
                  else
                    (case mem s2 new_dependencies of
                       Some (Array blk) \<Rightarrow>
                         if unat (num_of_dependencies h1 - 1) < length blk then
                           (let s3 = s2\<lparr>mem := (mem s2)(new_dependencies \<mapsto>
                                       Array (blk[unat (num_of_dependencies h1 - 1) :=
                                                    dependency]))\<rparr>
                            in case mem s3 dependent of
                                 Some (Handle h3) \<Rightarrow>
                                   (let s4 = s3\<lparr>mem := (mem s3)(dependent \<mapsto>
                                               Handle (h3\<lparr>dependencies := new_dependencies\<rparr>))\<rparr>
                                    in case mem s4 dependency of
                                         Some (Handle hy) \<Rightarrow>
                                           Inr (RCUTILS_RET_OK,
                                                s4\<lparr>mem := (mem s4)(dependency \<mapsto>
                                                      Handle (hy\<lparr>ref_count := ref_count hy + 1\<rparr>))\<rparr>)
                                       | _ \<Rightarrow> Inl Invalid_access)
                               | _ \<Rightarrow> Inl Invalid_access)
                         else Inl Invalid_access
                     | _ \<Rightarrow> Inl Invalid_access))
      | _ \<Rightarrow> Inl Invalid_access)"

subsection \<open>\<open>_rclpy_handle_dec_ref\<close>\<close>

text \<open>The condition of the \<open>assert\<close> at the entry of \<open>_rclpy_handle_dec_ref\<close>.\<close>

definition handle_assertion :: "rclpy_handle_t \<Rightarrow> bool" where
  "handle_assertion h \<longleftrightarrow>
     (0 \<noteq> num_of_dependencies h \<and> NULL \<noteq> dependencies h) \<or>
     (0 = num_of_dependencies h \<and> NULL = dependencies h)"

text \<open>
  The last three statements of the teardown branch: the destructor call when the pointer is
  not null, \<open>deallocate(handle->dependencies)\<close>, \<open>deallocate(handle)\<close>.
\<close>

definition destroy_handle :: "addr \<Rightarrow> heap \<Rightarrow> stop + heap" where
  "destroy_handle handle s =
     (case mem s handle of
        Some (Handle h) \<Rightarrow>
          (let s1 = (if destructor h \<noteq> NULL
                     then invoke_destructor (destructor h) (ptr h) s else s)
           in case deallocate (dependencies h) s1 of
                Inl e \<Rightarrow> Inl e
              | Inr s2 \<Rightarrow> deallocate handle s2)
      | _ \<Rightarrow> Inl Invalid_access)"

text \<open>
  The recursion of the source can be unbounded, so both functions carry fuel: every call and
  every test of the loop condition costs one unit, and a run that needs more than it was
  given stops with \<open>Out_of_fuel\<close>. \<open>dec_ref_loop n handle i\<close> is the \<open>for\<close> loop from
  index \<open>i\<close> on; as in C it reads \<open>handle->num_of_dependencies\<close> and
  \<open>handle->dependencies[i]\<close> from the current store at every turn.
\<close>

fun rclpy_handle_dec_ref :: "nat \<Rightarrow> addr \<Rightarrow> heap \<Rightarrow> stop + heap"
  and dec_ref_loop :: "nat \<Rightarrow> addr \<Rightarrow> size_t \<Rightarrow> heap \<Rightarrow> stop + heap" where
  "rclpy_handle_dec_ref 0 handle s = Inl Out_of_fuel"
| "rclpy_handle_dec_ref (Suc n) handle s =
     (if handle = NULL then Inr s
      else case mem s handle of
        Some (Handle h) \<Rightarrow>
          if \<not> handle_assertion h then Inl Assertion_failed
          else
            (let h1 = h\<lparr>ref_count := ref_count h - 1\<rparr>;
                 s1 = s\<lparr>mem := (mem s)(handle \<mapsto> Handle h1)\<rparr>
             in if ref_count h1 \<noteq> 0 then
                  (case dec_ref_loop n handle 0 s1 of
                     Inl e \<Rightarrow> Inl e
                   | Inr s2 \<Rightarrow> destroy_handle handle s2)
                else Inr s1)
      | _ \<Rightarrow> Inl Invalid_access)"
| "dec_ref_loop 0 handle i s = Inl Out_of_fuel"
| "dec_ref_loop (Suc n) handle i s =
     (case mem s handle of
        Some (Handle h) \<Rightarrow>
          if i < num_of_dependencies h then
            (case mem s (dependencies h) of
               Some (Array blk) \<Rightarrow>
                 if unat i < length blk then
                   (case rclpy_handle_dec_ref n (blk ! unat i) s of
                      Inl e \<Rightarrow> Inl e
                    | Inr s' \<Rightarrow> dec_ref_loop n handle (i + 1) s')
                 else Inl Invalid_access
             | _ \<Rightarrow> Inl Invalid_access)
          else Inr s
      | _ \<Rightarrow> Inl Invalid_access)"

subsection \<open>Derived notions\<close>

text \<open>
  The dependency list a handle stands for: the first \<open>num_of_dependencies\<close> entries of the
  array behind \<open>dependencies\<close>, and nothing when the pointer is null.
\<close>

definition dependency_list :: "heap \<Rightarrow> rclpy_handle_t \<Rightarrow> addr list" where
  "dependency_list s h =
     (if dependencies h = NULL then []
      else case mem s (dependencies h) of
        Some (Array blk) \<Rightarrow> take (unat (num_of_dependencies h)) blk
      | _ \<Rightarrow> [])"

text \<open>
  A valid handle: either it has no dependencies and a null array pointer, or its array
  pointer holds an array of exactly \<open>num_of_dependencies\<close> entries.
\<close>

definition valid_handle :: "heap \<Rightarrow> rclpy_handle_t \<Rightarrow> bool" where
  "valid_handle s h \<longleftrightarrow>
     (if dependencies h = NULL then num_of_dependencies h = 0
      else case mem s (dependencies h) of
        Some (Array blk) \<Rightarrow>
          num_of_dependencies h \<noteq> 0 \<and> length blk = unat (num_of_dependencies h)
      | _ \<Rightarrow> False)"

text \<open>
  Two handle records that differ at most in \<open>ref_count\<close>.
\<close>

definition same_but_count :: "rclpy_handle_t \<Rightarrow> rclpy_handle_t \<Rightarrow> bool" where
  "same_but_count h h' \<longleftrightarrow>
     ptr h' = ptr h \<and> dependencies h' = dependencies h \<and>
     num_of_dependencies h' = num_of_dependencies h \<and> destructor h' = destructor h"

text \<open>
  \<open>remains s s'\<close>: every block of \<open>s'\<close> was a block of \<open>s\<close> already, arrays with the
  same entries and handles with the same fields up to the count. Releasing only ever
  decrements counts and gives blocks back.
\<close>

definition remains :: "heap \<Rightarrow> heap \<Rightarrow> bool" where
  "remains s s' \<longleftrightarrow>
     (\<forall>a. case mem s' a of
            None \<Rightarrow> True
          | Some (Array blk) \<Rightarrow> mem s a = Some (Array blk)
          | Some (Handle h') \<Rightarrow>
              (case mem s a of Some (Handle h) \<Rightarrow> same_but_count h h' | _ \<Rightarrow> False))"

definition trace_grows :: "heap \<Rightarrow> heap \<Rightarrow> bool" where
  "trace_grows s s' \<longleftrightarrow> (\<exists>evs. trace s' = trace s @ evs)"

text \<open>The events a run from \<open>s\<close> to \<open>s'\<close> added.\<close>

definition new_events :: "heap \<Rightarrow> heap \<Rightarrow> event list" where
  "new_events s s' = drop (length (trace s)) (trace s')"

text \<open>
  The first step of the teardown in the words of the specification: release is called on
  every entry of the dependency list, in the order of the list, one call per stored entry.
  The list is fixed when the step starts, where the loop of the source reads the handle
  again at every turn.
\<close>

fun release_each :: "nat \<Rightarrow> addr list \<Rightarrow> heap \<Rightarrow> stop + heap" where
  "release_each n [] s = Inr s"
| "release_each n (d # ds) s =
     (case rclpy_handle_dec_ref n d s of
        Inl e \<Rightarrow> Inl e
      | Inr s' \<Rightarrow> release_each n ds s')"

text \<open>The dependency graph of a state: an edge \<open>(d, a)\<close> when handle \<open>a\<close> lists \<open>d\<close>.\<close>

definition depends_on :: "heap \<Rightarrow> (addr \<times> addr) set" where
  "depends_on s = {(d, a). \<exists>h. mem s a = Some (Handle h) \<and> d \<in> set (dependency_list s h)}"

subsection \<open>Example states\<close>

definition empty_heap :: heap where
  "empty_heap = \<lparr>mem = Map.empty, allocator = [10, 20, 30], trace = []\<rparr>"

text \<open>Two handles as \<open>_rclpy_create_handle\<close> leaves them, and one more address to allocate.\<close>

definition two_handles :: heap where
  "two_handles =
     \<lparr>mem = [10 \<mapsto> Handle \<lparr>ptr = 100, ref_count = 1, dependencies = NULL,
                            num_of_dependencies = 0, destructor = 7\<rparr>,
              20 \<mapsto> Handle \<lparr>ptr = 200, ref_count = 1, dependencies = NULL,
                            num_of_dependencies = 0, destructor = 8\<rparr>],
      allocator = [30], trace = []\<rparr>"

text \<open>
  The two handles after \<open>_rclpy_handle_add_dependency\<close> made the first depend on the second
  and the owner of the first released it once.
\<close>

definition released_pair :: heap where
  "released_pair =
     \<lparr>mem = [10 \<mapsto> Handle \<lparr>ptr = 100, ref_count = 0, dependencies = 30,
                            num_of_dependencies = 1, destructor = 7\<rparr>,
              20 \<mapsto> Handle \<lparr>ptr = 200, ref_count = 2, dependencies = NULL,
                            num_of_dependencies = 0, destructor = 8\<rparr>,
              30 \<mapsto> Array [20]],
      allocator = [], trace = []\<rparr>"

section \<open>Properties\<close>

subsection \<open>Allocator and construction\<close>

lemma deallocate_NULL: "deallocate NULL s = Inr (s\<lparr>trace := trace s @ [Deallocate NULL]\<rparr>)"
  by (simp add: deallocate_def)

lemma zero_allocate_cases:
  "zero_allocate s = (q, s1) \<Longrightarrow>
     (q = NULL \<and> mem s1 = mem s \<and> trace s1 = trace s) \<or>
     (q \<noteq> NULL \<and> mem s q = None \<and> mem s1 = (mem s)(q \<mapsto> Handle zero_handle) \<and>
      trace s1 = trace s)"
  by (auto simp: zero_allocate_def split: list.splits if_splits)

lemma create_handle_record:
  assumes "rclpy_create_handle p d s = Inr (handle, s')" and "handle \<noteq> NULL"
  shows "mem s' handle =
           Some (Handle \<lparr>ptr = p, ref_count = 1, dependencies = NULL,
                         num_of_dependencies = 0, destructor = d\<rparr>)"
proof -
  obtain q s1 where z: "zero_allocate s = (q, s1)"
    by (cases "zero_allocate s")
  from zero_allocate_cases [OF z] assms z show ?thesis
    by (auto simp: rclpy_create_handle_def deallocate_NULL zero_handle_def split: sum.splits)
qed

text \<open>
  Claim C6: a successful \<open>_rclpy_create_handle\<close> (it returns a pointer that is not null)
  returns a handle whose reference count is 1, whose dependency list is empty (null array
  pointer, zero entries), and whose \<open>ptr\<close> and \<open>destructor\<close> are the arguments, for every
  resource pointer and every destructor pointer, null included.
\<close>

theorem create_handle_fresh:
  assumes "rclpy_create_handle p d s = Inr (handle, s')" and "handle \<noteq> NULL"
  shows "\<exists>h. mem s' handle = Some (Handle h) \<and>
           ref_count h = 1 \<and> dependencies h = NULL \<and> num_of_dependencies h = 0 \<and>
           dependency_list s' h = [] \<and> ptr h = p \<and> destructor h = d"
  using create_handle_record [OF assms] by (simp add: dependency_list_def)

theorem create_handle_fresh_witness:
  "\<exists>s' h. rclpy_create_handle 100 NULL empty_heap = Inr (10, s') \<and> 10 \<noteq> NULL \<and>
      mem s' 10 = Some (Handle h) \<and>
      ref_count h = 1 \<and> dependencies h = NULL \<and> num_of_dependencies h = 0 \<and>
      dependency_list s' h = [] \<and> ptr h = 100 \<and> destructor h = NULL"
proof -
  obtain s' where c: "rclpy_create_handle 100 NULL empty_heap = Inr (10, s')"
    by (simp add: rclpy_create_handle_def zero_allocate_def empty_heap_def NULL_def)
  have n: "(10::nat) \<noteq> NULL"
    by (simp add: NULL_def)
  from create_handle_fresh [OF c n] c n show ?thesis
    by blast
qed

text \<open>
  Claim C8: when the allocator cannot satisfy the request of \<open>_rclpy_create_handle\<close>
  (\<open>zero_allocate\<close> answers \<open>NULL\<close>), the call returns \<open>NULL\<close> and the store is the one
  from before the call: no block was added, so no partly built handle is left behind.
\<close>

theorem create_handle_allocation_failure:
  assumes "fst (zero_allocate s) = NULL"
  shows "\<exists>s'. rclpy_create_handle p d s = Inr (NULL, s') \<and> mem s' = mem s"
proof -
  obtain s1 where z: "zero_allocate s = (NULL, s1)"
    using assms by (cases "zero_allocate s") auto
  from zero_allocate_cases [OF z] have "mem s1 = mem s"
    by auto
  with z show ?thesis
    by (simp add: rclpy_create_handle_def deallocate_NULL)
qed

theorem create_handle_allocation_failure_witness:
  "fst (zero_allocate (empty_heap\<lparr>allocator := []\<rparr>)) = NULL \<and>
   (\<exists>s'. rclpy_create_handle 100 7 (empty_heap\<lparr>allocator := []\<rparr>) = Inr (NULL, s') \<and>
      mem s' = mem (empty_heap\<lparr>allocator := []\<rparr>))"
proof -
  have z: "fst (zero_allocate (empty_heap\<lparr>allocator := []\<rparr>)) = NULL"
    by (simp add: zero_allocate_def)
  from create_handle_allocation_failure [OF z] z show ?thesis
    by blast
qed

subsection \<open>Dependency registration\<close>

text \<open>A \<open>size_t\<close> increment that does not wrap around adds one.\<close>

lemma unat_succ:
  fixes i k :: size_t
  assumes "i < k"
  shows "unat (i + 1) = unat i + 1"
proof -
  have "unat k < 2 ^ 64"
    using unsigned_less [of k, where 'a = nat] by simp
  with assms have b: "unat i + 1 < 2 ^ 64"
    by (simp add: word_less_nat_alt)
  have "unat (i + 1) = (unat i + unat (1 :: size_t)) mod 2 ^ LENGTH(64)"
    by (rule unat_word_ariths(1))
  with b show ?thesis
    by simp
qed

lemma unat_incr:
  fixes x :: size_t
  assumes "x + 1 \<noteq> 0"
  shows "unat (x + 1) = unat x + 1"
proof -
  have "x \<noteq> - 1"
    using assms by auto
  then have "x < - 1"
    by (simp add: word_order.not_eq_extremum)
  then show ?thesis
    by (rule unat_succ)
qed

lemma reallocate_cases:
  assumes "reallocate old sz s = Inr (q, s')"
  shows "trace s' = trace s \<and>
     (if q = NULL then mem s' = mem s
      else if old = NULL then mem s q = None \<and>
             mem s' = (mem s)(q \<mapsto> Array (resize (unat sz div unat sizeof_ptr) []))
      else \<exists>blk. mem s old = Some (Array blk) \<and> (q = old \<or> mem s q = None) \<and>
             mem s' = ((mem s)(old := None))(q \<mapsto> Array (resize (unat sz div unat sizeof_ptr) blk)))"
  using assms
  by (auto simp: reallocate_def Let_def split: list.splits if_splits option.splits block.splits)

text \<open>What a successful call did, statement by statement.\<close>

lemma add_dependency_OK:
  assumes "rclpy_handle_add_dependency a b s = Inr (RCUTILS_RET_OK, s')"
  shows "\<exists>h q s2 blk h3 hy.
      a \<noteq> NULL \<and> b \<noteq> NULL \<and> q \<noteq> NULL \<and>
      mem s a = Some (Handle h) \<and>
      reallocate (dependencies h) ((num_of_dependencies h + 1) * sizeof_ptr)
        (s\<lparr>mem := (mem s)(a \<mapsto> Handle (h\<lparr>num_of_dependencies := num_of_dependencies h + 1\<rparr>))\<rparr>)
        = Inr (q, s2) \<and>
      mem s2 q = Some (Array blk) \<and>
      unat (num_of_dependencies h) < length blk \<and>
      ((mem s2)(q \<mapsto> Array (blk[unat (num_of_dependencies h) := b]))) a = Some (Handle h3) \<and>
      ((mem s2)(q \<mapsto> Array (blk[unat (num_of_dependencies h) := b]),
                a \<mapsto> Handle (h3\<lparr>dependencies := q\<rparr>))) b = Some (Handle hy) \<and>
      mem s' = (mem s2)(q \<mapsto> Array (blk[unat (num_of_dependencies h) := b]),
                 a \<mapsto> Handle (h3\<lparr>dependencies := q\<rparr>),
                 b \<mapsto> Handle (hy\<lparr>ref_count := ref_count hy + 1\<rparr>)) \<and>
      trace s' = trace s2"
  using assms
  by (auto simp: rclpy_handle_add_dependency_def Let_def
           split: if_splits option.splits block.splits sum.splits prod.splits)

text \<open>
  The array of \<open>n + 1\<close> pointers asked for has room for slot \<open>n\<close> only when neither the
  increment nor the product with the pointer size wrapped around.
\<close>

lemma slot_arith:
  fixes m k :: nat
  assumes "0 < k" and "m < ((m + 1) mod (8 * k) * 8) mod (8 * k) div 8"
  shows "((m + 1) mod (8 * k) * 8) mod (8 * k) div 8 = m + 1 \<and> (m + 1) mod (8 * k) = m + 1"
proof -
  have A: "(a * 8) mod (8 * k) div 8 = a mod k" for a :: nat
  proof -
    have "(a * 8) mod (k * 8) = (a mod k) * 8"
      by (rule mod_mult_mult2)
    then show ?thesis by (simp add: mult.commute)
  qed
  have B: "(m + 1) mod (8 * k) mod k = (m + 1) mod k"
    by (rule mod_mod_cancel) simp
  from assms(2) have "m < (m + 1) mod k"
    unfolding A B .
  moreover have "(m + 1) mod k < k"
    using assms(1) by simp
  ultimately have "m + 1 < k"
    by (metis Suc_eq_plus1 Suc_lessI mod_self not_less_zero less_trans)
  then have "(m + 1) mod k = m + 1" and "(m + 1) mod (8 * k) = m + 1"
    by simp_all
  then show ?thesis
    unfolding A by simp
qed

lemma slot_count:
  fixes x :: size_t
  assumes "unat x < unat ((x + 1) * sizeof_ptr) div unat sizeof_ptr"
  shows "unat ((x + 1) * sizeof_ptr) div unat sizeof_ptr = unat x + 1 \<and>
         unat (x + 1) = unat x + 1 \<and> x + 1 \<noteq> 0"
proof -
  have p: "(2::nat) ^ 64 = 8 * 2 ^ 61"
    by simp
  have u: "unat sizeof_ptr = 8"
    by (simp add: sizeof_ptr_def)
  have "unat (x + 1) = (unat x + unat (1 :: size_t)) mod 2 ^ LENGTH(64)"
    by (rule unat_word_ariths(1))
  then have f: "unat (x + 1) = (unat x + 1) mod (8 * 2 ^ 61)"
    unfolding p [symmetric] by simp
  have "unat ((x + 1) * sizeof_ptr) = unat (x + 1) * unat sizeof_ptr mod 2 ^ LENGTH(64)"
    by (rule unat_word_ariths(2))
  then have m: "unat ((x + 1) * sizeof_ptr) = unat (x + 1) * 8 mod (8 * 2 ^ 61)"
    unfolding u p [symmetric] by simp
  have e: "unat ((x + 1) * sizeof_ptr) div unat sizeof_ptr
           = ((unat x + 1) mod (8 * 2 ^ 61) * 8) mod (8 * 2 ^ 61) div 8"
    unfolding m u f ..
  from assms have g: "unat x < ((unat x + 1) mod (8 * 2 ^ 61) * 8) mod (8 * 2 ^ 61) div 8"
    unfolding e .
  have h: "((unat x + 1) mod (8 * 2 ^ 61) * 8) mod (8 * 2 ^ 61) div 8 = unat x + 1 \<and>
           (unat x + 1) mod (8 * 2 ^ 61) = unat x + 1"
    by (rule slot_arith [OF _ g]) simp
  have c: "unat (x + 1) = unat x + 1"
    unfolding f using h by blast
  then have "x + 1 \<noteq> 0"
    by (metis Suc_eq_plus1 nat.simps(3) unat_0)
  with c h show ?thesis
    unfolding e by blast
qed

lemma resize_grow: "length blk = n \<Longrightarrow> (resize (n + 1) blk)[n := b] = blk @ [b]"
  using list_update_length [of blk NULL "[]" b] by (auto simp: resize_def)

lemma add_dependency_shape:
  assumes ok: "rclpy_handle_add_dependency a b s = Inr (RCUTILS_RET_OK, s')"
    and a: "mem s a = Some (Handle h)"
  shows "\<exists>q old hb. q \<noteq> NULL \<and> q \<noteq> a \<and> q \<noteq> b \<and> a \<noteq> NULL \<and> b \<noteq> NULL \<and>
      dependencies h \<noteq> a \<and> dependencies h \<noteq> b \<and>
      (if dependencies h = NULL then old = []
       else mem s (dependencies h) = Some (Array old)) \<and>
      (q = dependencies h \<or> mem s q = None) \<and>
      mem s b = Some (Handle hb) \<and>
      unat (num_of_dependencies h + 1) = unat (num_of_dependencies h) + 1 \<and>
      num_of_dependencies h + 1 \<noteq> 0 \<and>
      mem s' = (if dependencies h = NULL then mem s else (mem s)(dependencies h := None))
        (q \<mapsto> Array ((resize (unat (num_of_dependencies h) + 1) old)
                         [unat (num_of_dependencies h) := b]),
         a \<mapsto> Handle (h\<lparr>num_of_dependencies := num_of_dependencies h + 1,
                           dependencies := q\<rparr>),
         b \<mapsto> Handle ((if a = b
                         then h\<lparr>num_of_dependencies := num_of_dependencies h + 1,
                                 dependencies := q\<rparr>
                         else hb)\<lparr>ref_count := ref_count hb + 1\<rparr>)) \<and>
      trace s' = trace s"
proof -
  let ?n = "num_of_dependencies h"
  let ?s1 = "s\<lparr>mem := (mem s)(a \<mapsto> Handle (h\<lparr>num_of_dependencies := ?n + 1\<rparr>))\<rparr>"
  let ?k = "unat ((?n + 1) * sizeof_ptr) div unat sizeof_ptr"
  from add_dependency_OK [OF ok] a obtain q s2 blk h3 hy where
    nn: "a \<noteq> NULL" "b \<noteq> NULL" "q \<noteq> NULL"
    and re: "reallocate (dependencies h) ((?n + 1) * sizeof_ptr) ?s1 = Inr (q, s2)"
    and q: "mem s2 q = Some (Array blk)"
    and len: "unat ?n < length blk"
    and h3: "((mem s2)(q \<mapsto> Array (blk[unat ?n := b]))) a = Some (Handle h3)"
    and hy: "((mem s2)(q \<mapsto> Array (blk[unat ?n := b]),
                a \<mapsto> Handle (h3\<lparr>dependencies := q\<rparr>))) b = Some (Handle hy)"
    and m': "mem s' = (mem s2)(q \<mapsto> Array (blk[unat ?n := b]),
                 a \<mapsto> Handle (h3\<lparr>dependencies := q\<rparr>),
                 b \<mapsto> Handle (hy\<lparr>ref_count := ref_count hy + 1\<rparr>))"
    and t': "trace s' = trace s2"
    by auto
  from h3 have qa: "q \<noteq> a"
    by (auto split: if_splits)
  from hy qa have qb: "q \<noteq> b"
    by (auto split: if_splits)
  note rc = reallocate_cases [OF re]
  from rc have t2: "trace s2 = trace s"
    by simp
  have "\<exists>old. (if dependencies h = NULL then old = []
               else mem s (dependencies h) = Some (Array old)) \<and>
       dependencies h \<noteq> a \<and> (q = dependencies h \<or> mem s q = None) \<and>
       blk = resize ?k old \<and>
       mem s2 = (if dependencies h = NULL then mem ?s1 else (mem ?s1)(dependencies h := None))
                  (q \<mapsto> Array blk)"
  proof (cases "dependencies h = NULL")
    case True
    with rc nn q qa show ?thesis
      by (auto split: if_splits)
  next
    case False
    with rc nn obtain old where o: "mem ?s1 (dependencies h) = Some (Array old)"
      by auto
    then have "dependencies h \<noteq> a"
      by (auto split: if_splits)
    with False rc nn q o qa show ?thesis
      by (auto split: if_splits)
  qed
  then obtain old where old: "if dependencies h = NULL then old = []
               else mem s (dependencies h) = Some (Array old)"
    "dependencies h \<noteq> a" "q = dependencies h \<or> mem s q = None" "blk = resize ?k old"
    and m2: "mem s2 = (if dependencies h = NULL then mem ?s1 else (mem ?s1)(dependencies h := None))
                  (q \<mapsto> Array blk)"
    by blast
  have "length blk = ?k"
    by (simp add: old(4) resize_def)
  with len have "unat ?n < ?k"
    by simp
  from slot_count [OF this] have k: "?k = unat ?n + 1"
    and u: "unat (?n + 1) = unat ?n + 1" and nz: "?n + 1 \<noteq> 0"
    by simp_all
  from h3 qa m2 old(2) have h3': "h3 = h\<lparr>num_of_dependencies := ?n + 1\<rparr>"
    by (auto split: if_splits)
  have "\<exists>hb. mem s b = Some (Handle hb) \<and> (a \<noteq> b \<longrightarrow> hy = hb) \<and> dependencies h \<noteq> b"
    using hy qb m2 a nn old(2) by (auto split: if_splits)
  then obtain hb where hb: "mem s b = Some (Handle hb)" "a \<noteq> b \<longrightarrow> hy = hb"
    "dependencies h \<noteq> b"
    by blast
  have hya: "a = b \<longrightarrow> hy = h3\<lparr>dependencies := q\<rparr> \<and> hb = h"
    using hy hb a by auto
  have "mem s' = (if dependencies h = NULL then mem s else (mem s)(dependencies h := None))
        (q \<mapsto> Array ((resize (unat ?n + 1) old)[unat ?n := b]),
         a \<mapsto> Handle (h\<lparr>num_of_dependencies := ?n + 1, dependencies := q\<rparr>),
         b \<mapsto> Handle ((if a = b
                         then h\<lparr>num_of_dependencies := ?n + 1, dependencies := q\<rparr>
                         else hb)\<lparr>ref_count := ref_count hb + 1\<rparr>))"
  proof (rule ext)
    fix x
    from hya hb(2) h3' have "hy = (if a = b then h\<lparr>num_of_dependencies := ?n + 1, dependencies := q\<rparr>
                         else hb)" and "ref_count hy = ref_count hb"
      by auto
    then show "mem s' x = ((if dependencies h = NULL then mem s else (mem s)(dependencies h := None))
        (q \<mapsto> Array ((resize (unat ?n + 1) old)[unat ?n := b]),
         a \<mapsto> Handle (h\<lparr>num_of_dependencies := ?n + 1, dependencies := q\<rparr>),
         b \<mapsto> Handle ((if a = b
                         then h\<lparr>num_of_dependencies := ?n + 1, dependencies := q\<rparr>
                         else hb)\<lparr>ref_count := ref_count hb + 1\<rparr>))) x"
      unfolding m' m2 old(4) k h3' by simp
  qed
  with nn qa qb old(1,2,3) hb(1,3) u nz t' t2 show ?thesis
    by (intro exI [of _ q] exI [of _ old] exI [of _ hb]) simp
qed

text \<open>
  Claim C5: for valid handles \<open>a\<close> (dependent) and \<open>b\<close> (dependency), a successful
  \<open>_rclpy_handle_add_dependency\<close> appends \<open>b\<close> at the end of the dependency list of
  \<open>a\<close>, whatever the list already holds (so order is kept and duplicates are stored), and
  adds exactly 1 to the reference count of \<open>b\<close> (the \<open>size_t\<close> increment, which is the
  successor of the count unless the count is the largest \<open>size_t\<close> value). The count of
  \<open>a\<close> is unchanged when \<open>a\<close> and \<open>b\<close> are different handles, which the acyclic
  dependency graph of the specification requires.
\<close>

theorem add_dependency_appends:
  assumes "rclpy_handle_add_dependency a b s = Inr (RCUTILS_RET_OK, s')"
    and "mem s a = Some (Handle ha)" and "valid_handle s ha"
    and "mem s b = Some (Handle hb)"
  shows "\<exists>ha' hb'. mem s' a = Some (Handle ha') \<and> mem s' b = Some (Handle hb') \<and>
      valid_handle s' ha' \<and>
      dependency_list s' ha' = dependency_list s ha @ [b] \<and>
      ref_count hb' = ref_count hb + 1 \<and>
      (ref_count hb + 1 \<noteq> 0 \<longrightarrow> unat (ref_count hb') = unat (ref_count hb) + 1) \<and>
      (a \<noteq> b \<longrightarrow> ref_count ha' = ref_count ha)"
proof -
  let ?n = "num_of_dependencies ha"
  from add_dependency_shape [OF assms(1,2)] assms(4) obtain q old where
    q: "q \<noteq> NULL" "q \<noteq> a" "q \<noteq> b"
    and old: "if dependencies ha = NULL then old = []
              else mem s (dependencies ha) = Some (Array old)"
    and u: "unat (?n + 1) = unat ?n + 1" and nz: "?n + 1 \<noteq> 0"
    and m': "mem s' = (if dependencies ha = NULL then mem s else (mem s)(dependencies ha := None))
        (q \<mapsto> Array ((resize (unat ?n + 1) old)[unat ?n := b]),
         a \<mapsto> Handle (ha\<lparr>num_of_dependencies := ?n + 1, dependencies := q\<rparr>),
         b \<mapsto> Handle ((if a = b
                         then ha\<lparr>num_of_dependencies := ?n + 1, dependencies := q\<rparr>
                         else hb)\<lparr>ref_count := ref_count hb + 1\<rparr>))"
    by auto
  from old assms(3) have l: "length old = unat ?n" and d: "dependency_list s ha = old"
    by (auto simp: valid_handle_def dependency_list_def split: if_splits)
  have g: "(resize (unat ?n + 1) old)[unat ?n := b] = old @ [b]"
    by (rule resize_grow [OF l])
  let ?ha' = "(if a = b then ha\<lparr>ref_count := ref_count ha + 1\<rparr> else ha)
                \<lparr>num_of_dependencies := ?n + 1, dependencies := q\<rparr>"
  let ?hb' = "(if a = b then ha\<lparr>num_of_dependencies := ?n + 1, dependencies := q\<rparr>
              else hb)\<lparr>ref_count := ref_count hb + 1\<rparr>"
  have qm: "mem s' q = Some (Array (old @ [b]))"
    unfolding m' g using q by simp
  have 1: "mem s' a = Some (Handle ?ha')"
    unfolding m' using assms(2,4) by auto
  have 2: "mem s' b = Some (Handle ?hb')"
    unfolding m' by simp
  have 3: "valid_handle s' ?ha'"
    using q qm nz u l by (simp add: valid_handle_def)
  have 4: "dependency_list s' ?ha' = dependency_list s ha @ [b]"
    using q qm u l d by (simp add: dependency_list_def)
  have 5: "ref_count hb + 1 \<noteq> 0 \<longrightarrow> unat (ref_count ?hb') = unat (ref_count hb) + 1"
    by (simp add: unat_incr)
  from 1 2 3 4 5 show ?thesis
    by (intro exI [of _ ?ha'] exI [of _ ?hb']) simp
qed

theorem add_dependency_appends_witness:
  "\<exists>s' ha' hb'.
     rclpy_handle_add_dependency 10 20 two_handles = Inr (RCUTILS_RET_OK, s') \<and>
     mem s' 10 = Some (Handle ha') \<and> mem s' 20 = Some (Handle hb') \<and>
     dependency_list s' ha' = [20] \<and> ref_count hb' = 2 \<and> unat (ref_count hb') = 2 \<and>
     ref_count ha' = 1"
proof -
  let ?ha = "\<lparr>ptr = 100, ref_count = 1, dependencies = NULL,
                            num_of_dependencies = 0, destructor = 7\<rparr>"
  let ?hb = "\<lparr>ptr = 200, ref_count = 1, dependencies = NULL,
                            num_of_dependencies = 0, destructor = 8\<rparr>"
  obtain s' where ok: "rclpy_handle_add_dependency 10 20 two_handles = Inr (RCUTILS_RET_OK, s')"
    by (simp add: rclpy_handle_add_dependency_def two_handles_def reallocate_def NULL_def
        sizeof_ptr_def resize_def)
  have a: "mem two_handles 10 = Some (Handle ?ha)" and b: "mem two_handles 20 = Some (Handle ?hb)"
    by (simp_all add: two_handles_def)
  have v: "valid_handle two_handles ?ha"
    by (simp add: valid_handle_def)
  have e: "dependency_list two_handles ?ha = []"
    by (simp add: dependency_list_def)
  have n: "(10::nat) \<noteq> 20"
    by simp
  from add_dependency_appends [OF ok a v b] obtain ha' hb' where
    "mem s' 10 = Some (Handle ha')" "mem s' 20 = Some (Handle hb')"
    "dependency_list s' ha' = [20]" "ref_count hb' = 2" "unat (ref_count hb') = 2"
    "ref_count ha' = 1"
    unfolding e using n by auto
  with ok show ?thesis
    by blast
qed

text \<open>
  Claim C10: the condition asserted at the entry of \<open>_rclpy_handle_dec_ref\<close> (the array
  pointer is null exactly when the number of dependencies is zero) holds for the handle a
  successful \<open>_rclpy_create_handle\<close> returns and for the dependent after a successful
  \<open>_rclpy_handle_add_dependency\<close>; every other handle that satisfied it before that call
  still does.
\<close>

theorem handle_assertion_established:
  "(rclpy_create_handle p d s = Inr (handle, s1) \<and> handle \<noteq> NULL \<longrightarrow>
      (\<exists>h. mem s1 handle = Some (Handle h) \<and> handle_assertion h)) \<and>
   (rclpy_handle_add_dependency a b t = Inr (RCUTILS_RET_OK, s2) \<longrightarrow>
      (\<exists>h. mem s2 a = Some (Handle h) \<and> handle_assertion h) \<and>
      (\<forall>x hx. mem t x = Some (Handle hx) \<and> handle_assertion hx \<longrightarrow>
         (\<exists>hx'. mem s2 x = Some (Handle hx') \<and> handle_assertion hx')))"
proof (intro conjI impI)
  assume "rclpy_create_handle p d s = Inr (handle, s1) \<and> handle \<noteq> NULL"
  then have "mem s1 handle =
           Some (Handle \<lparr>ptr = p, ref_count = 1, dependencies = NULL,
                         num_of_dependencies = 0, destructor = d\<rparr>)"
    using create_handle_record by blast
  then show "\<exists>h. mem s1 handle = Some (Handle h) \<and> handle_assertion h"
    by (simp add: handle_assertion_def)
next
  assume ok: "rclpy_handle_add_dependency a b t = Inr (RCUTILS_RET_OK, s2)"
  then obtain h where a: "mem t a = Some (Handle h)"
    using add_dependency_OK by blast
  let ?n = "num_of_dependencies h"
  from add_dependency_shape [OF ok a] obtain q old hb where
    q: "q \<noteq> NULL" "q \<noteq> a" "q \<noteq> b"
    and da: "dependencies h \<noteq> a" "dependencies h \<noteq> b"
    and old: "if dependencies h = NULL then old = []
              else mem t (dependencies h) = Some (Array old)"
    and fresh: "q = dependencies h \<or> mem t q = None"
    and b: "mem t b = Some (Handle hb)"
    and nz: "?n + 1 \<noteq> 0"
    and m': "mem s2 = (if dependencies h = NULL then mem t else (mem t)(dependencies h := None))
        (q \<mapsto> Array ((resize (unat ?n + 1) old)[unat ?n := b]),
         a \<mapsto> Handle (h\<lparr>num_of_dependencies := ?n + 1, dependencies := q\<rparr>),
         b \<mapsto> Handle ((if a = b
                         then h\<lparr>num_of_dependencies := ?n + 1, dependencies := q\<rparr>
                         else hb)\<lparr>ref_count := ref_count hb + 1\<rparr>))"
    by blast
  have own: "\<exists>h'. mem s2 a = Some (Handle h') \<and> handle_assertion h'"
    unfolding m' using q nz by (auto simp: handle_assertion_def)
  then show "\<exists>h. mem s2 a = Some (Handle h) \<and> handle_assertion h" .
  show "\<forall>x hx. mem t x = Some (Handle hx) \<and> handle_assertion hx \<longrightarrow>
         (\<exists>hx'. mem s2 x = Some (Handle hx') \<and> handle_assertion hx')"
  proof (intro allI impI)
    fix x hx
    assume x: "mem t x = Some (Handle hx) \<and> handle_assertion hx"
    show "\<exists>hx'. mem s2 x = Some (Handle hx') \<and> handle_assertion hx'"
    proof (cases "x = a")
      case True
      with own show ?thesis by simp
    next
      case xa: False
      show ?thesis
      proof (cases "x = b")
        case True
        with xa x b show ?thesis
          unfolding m' by (auto simp: handle_assertion_def)
      next
        case False
        from x old fresh q have "x \<noteq> q" "dependencies h \<noteq> NULL \<longrightarrow> x \<noteq> dependencies h"
          by (auto split: if_splits)
        with xa False x show ?thesis
          unfolding m' by auto
      qed
    qed
  qed
qed

theorem handle_assertion_established_witness:
  "(\<exists>h. mem (snd (projr (rclpy_create_handle 100 7 \<lparr>mem = Map.empty, allocator = [10], trace = []\<rparr>))) 10
       = Some (Handle h) \<and> handle_assertion h) \<and>
   (\<exists>s2 h. rclpy_handle_add_dependency 10 20 two_handles = Inr (RCUTILS_RET_OK, s2) \<and>
       mem s2 10 = Some (Handle h) \<and> handle_assertion h \<and>
       (\<exists>hx'. mem s2 20 = Some (Handle hx') \<and> handle_assertion hx'))"
proof -
  let ?e = "\<lparr>mem = Map.empty, allocator = [10], trace = []\<rparr>"
  obtain s1 where c: "rclpy_create_handle 100 7 ?e = Inr (10, s1)"
    by (simp add: rclpy_create_handle_def zero_allocate_def NULL_def)
  obtain s2 where ok: "rclpy_handle_add_dependency 10 20 two_handles = Inr (RCUTILS_RET_OK, s2)"
    by (simp add: rclpy_handle_add_dependency_def two_handles_def reallocate_def NULL_def
        sizeof_ptr_def resize_def)
  have b: "mem two_handles 20 = Some (Handle \<lparr>ptr = 200, ref_count = 1, dependencies = NULL,
                            num_of_dependencies = 0, destructor = 8\<rparr>) \<and>
      handle_assertion \<lparr>ptr = 200, ref_count = 1, dependencies = NULL,
                            num_of_dependencies = 0, destructor = 8\<rparr>"
    by (simp add: two_handles_def handle_assertion_def)
  have n: "(10::nat) \<noteq> NULL"
    by (simp add: NULL_def)
  from handle_assertion_established [of 100 7 ?e 10 s1 10 20 two_handles s2] c ok b n
  show ?thesis
    by auto
qed

subsection \<open>Release: fuel\<close>

text \<open>
  A run that ended with the fuel it had ends in the same way with more: first for one more
  unit, then for any larger amount.
\<close>

lemma fuel_step:
  "(rclpy_handle_dec_ref n handle s \<noteq> Inl Out_of_fuel \<longrightarrow>
       rclpy_handle_dec_ref (Suc n) handle s = rclpy_handle_dec_ref n handle s) \<and>
   (dec_ref_loop n handle i s \<noteq> Inl Out_of_fuel \<longrightarrow>
       dec_ref_loop (Suc n) handle i s = dec_ref_loop n handle i s)"
proof (induction n arbitrary: handle i s)
  case 0
  show ?case by simp
next
  case (Suc n)
  have 1: "rclpy_handle_dec_ref (Suc n) handle s = rclpy_handle_dec_ref n handle s"
    if "rclpy_handle_dec_ref n handle s \<noteq> Inl Out_of_fuel" for handle s
    using Suc that by blast
  have 2: "dec_ref_loop (Suc n) handle i s = dec_ref_loop n handle i s"
    if "dec_ref_loop n handle i s \<noteq> Inl Out_of_fuel" for handle i s
    using Suc that by blast
  have a: "rclpy_handle_dec_ref (Suc (Suc n)) handle s = rclpy_handle_dec_ref (Suc n) handle s"
    if ne: "rclpy_handle_dec_ref (Suc n) handle s \<noteq> Inl Out_of_fuel"
    using ne
    unfolding rclpy_handle_dec_ref.simps(2) [of "Suc n" handle s]
      rclpy_handle_dec_ref.simps(2) [of n handle s]
    using 2
    by (auto simp del: dec_ref_loop.simps rclpy_handle_dec_ref.simps simp: Let_def
          split: option.splits block.splits sum.splits if_splits)
  have b: "dec_ref_loop (Suc (Suc n)) handle i s = dec_ref_loop (Suc n) handle i s"
    if ne: "dec_ref_loop (Suc n) handle i s \<noteq> Inl Out_of_fuel"
    using ne
    unfolding dec_ref_loop.simps(2) [of "Suc n" handle i s] dec_ref_loop.simps(2) [of n handle i s]
    using 1 2
    by (auto simp del: dec_ref_loop.simps rclpy_handle_dec_ref.simps simp: Let_def
          split: option.splits block.splits sum.splits if_splits)
  from a b show ?case by blast
qed

lemma fuel_mono:
  assumes "n \<le> m"
  shows "(rclpy_handle_dec_ref n handle s \<noteq> Inl Out_of_fuel \<longrightarrow>
            rclpy_handle_dec_ref m handle s = rclpy_handle_dec_ref n handle s) \<and>
         (dec_ref_loop n handle i s \<noteq> Inl Out_of_fuel \<longrightarrow>
            dec_ref_loop m handle i s = dec_ref_loop n handle i s)"
  using assms
proof (induction m)
  case 0
  then show ?case by simp
next
  case (Suc m)
  show ?case
  proof (cases "n = Suc m")
    case True
    then show ?thesis by simp
  next
    case False
    with Suc.prems have "n \<le> m" by simp
    from Suc.IH [OF this] fuel_step [of m handle s i] show ?thesis
      by metis
  qed
qed

lemma dec_ref_fuel_mono:
  "rclpy_handle_dec_ref n handle s = Inr s' \<Longrightarrow> n \<le> m \<Longrightarrow>
     rclpy_handle_dec_ref m handle s = Inr s'"
  using fuel_mono [of n m handle s] by simp

lemma dec_ref_loop_fuel_mono:
  "dec_ref_loop n handle i s = Inr s' \<Longrightarrow> n \<le> m \<Longrightarrow> dec_ref_loop m handle i s = Inr s'"
  using fuel_mono [of n m handle s i] by simp

lemma deallocate_Inr:
  assumes "deallocate p s = Inr s'"
  shows "mem s' = (if p = NULL then mem s else (mem s)(p := None)) \<and>
     trace s' = trace s @ [Deallocate p] \<and> (p \<noteq> NULL \<longrightarrow> mem s p \<noteq> None)"
  using assms by (auto simp: deallocate_def split: if_splits)

lemma deallocate_fuel: "deallocate p s \<noteq> Inl Out_of_fuel"
  by (simp add: deallocate_def)

text \<open>What a returning run of the last three statements of the teardown did.\<close>

lemma destroy_handle_Inr:
  assumes "destroy_handle handle s = Inr s'" and "handle \<noteq> NULL"
  shows "\<exists>h. mem s handle = Some (Handle h) \<and>
     mem s' = (if dependencies h = NULL then mem s
               else (mem s)(dependencies h := None))(handle := None) \<and>
     trace s' = trace s @
        (if destructor h \<noteq> NULL then [Destructor_call (destructor h) (ptr h)] else []) @
        [Deallocate (dependencies h), Deallocate handle]"
proof -
  from assms(1) obtain h where h: "mem s handle = Some (Handle h)"
    by (auto simp: destroy_handle_def split: option.splits block.splits)
  let ?s1 = "if destructor h \<noteq> NULL then invoke_destructor (destructor h) (ptr h) s else s"
  from assms(1) h obtain s2 where d1: "deallocate (dependencies h) ?s1 = Inr s2"
    and d2: "deallocate handle s2 = Inr s'"
    by (auto simp: destroy_handle_def Let_def split: sum.splits)
  have m1: "mem ?s1 = mem s"
    and t1: "trace ?s1 = trace s @
        (if destructor h \<noteq> NULL then [Destructor_call (destructor h) (ptr h)] else [])"
    by (simp_all add: invoke_destructor_def)
  from deallocate_Inr [OF d1] deallocate_Inr [OF d2] assms(2) m1 t1 h show ?thesis
    by simp
qed

lemma destroy_handle_fuel: "destroy_handle handle s \<noteq> Inl Out_of_fuel"
  using deallocate_fuel
  by (auto simp: destroy_handle_def Let_def split: option.splits block.splits sum.splits)

lemma dec_ref_preserves:
  assumes refl: "\<And>s. R s s"
    and trans: "\<And>s t u. R s t \<Longrightarrow> R t u \<Longrightarrow> R s u"
    and count: "\<And>s a h c. mem s a = Some (Handle h) \<Longrightarrow>
                  R s (s\<lparr>mem := (mem s)(a \<mapsto> Handle (h\<lparr>ref_count := c\<rparr>))\<rparr>)"
    and destroy: "\<And>s a s'. a \<noteq> NULL \<Longrightarrow> destroy_handle a s = Inr s' \<Longrightarrow> R s s'"
  shows "(rclpy_handle_dec_ref n handle s = Inr s' \<longrightarrow> R s s') \<and>
         (dec_ref_loop n handle i s = Inr s' \<longrightarrow> R s s')"
proof (induction n arbitrary: handle i s s')
  case 0
  show ?case by simp
next
  case (Suc n)
  have 1: "R s s'" if "rclpy_handle_dec_ref n handle s = Inr s'" for handle s s'
    using Suc that by blast
  have 2: "R s s'" if "dec_ref_loop n handle i s = Inr s'" for handle i s s'
    using Suc that by blast
  have a: "R s s'" if r: "rclpy_handle_dec_ref (Suc n) handle s = Inr s'"
  proof (cases "handle = NULL")
    case True
    with r refl show ?thesis by simp
  next
    case False
    with r obtain h where h: "mem s handle = Some (Handle h)"
      by (auto split: option.splits block.splits)
    let ?s1 = "s\<lparr>mem := (mem s)(handle \<mapsto> Handle (h\<lparr>ref_count := ref_count h - 1\<rparr>))\<rparr>"
    have c: "R s ?s1"
      by (rule count [OF h])
    show ?thesis
    proof (cases "ref_count h - 1 = 0")
      case True
      with r False h have "s' = ?s1"
        by (auto simp: Let_def split: if_splits)
      with c show ?thesis by simp
    next
      case nz: False
      with r False h obtain s2 where l: "dec_ref_loop n handle 0 ?s1 = Inr s2"
        and d: "destroy_handle handle s2 = Inr s'"
        by (auto simp: Let_def split: if_splits sum.splits)
      from c 2 [OF l] destroy [OF False d] show ?thesis
        by (blast intro: trans)
    qed
  qed
  have b: "R s s'" if r: "dec_ref_loop (Suc n) handle i s = Inr s'"
  proof -
    from r obtain h where h: "mem s handle = Some (Handle h)"
      by (auto split: option.splits block.splits)
    show ?thesis
    proof (cases "i < num_of_dependencies h")
      case False
      with r h refl show ?thesis by simp
    next
      case True
      with r h obtain blk s1 where "rclpy_handle_dec_ref n (blk ! unat i) s = Inr s1"
        "dec_ref_loop n handle (i + 1) s1 = Inr s'"
        by (auto split: option.splits block.splits if_splits sum.splits)
      with 1 2 show ?thesis
        by (blast intro: trans)
    qed
  qed
  from a b show ?case by blast
qed

subsection \<open>Release: what a returning call leaves\<close>

lemma remains_refl: "remains s s"
  by (auto simp: remains_def same_but_count_def split: option.splits block.splits)

lemma remains_trans: "remains s t \<Longrightarrow> remains t u \<Longrightarrow> remains s u"
  unfolding remains_def
proof (intro allI)
  fix a
  assume st: "\<forall>a. case mem t a of None \<Rightarrow> True
          | Some (Array blk) \<Rightarrow> mem s a = Some (Array blk)
          | Some (Handle h') \<Rightarrow>
              (case mem s a of Some (Handle h) \<Rightarrow> same_but_count h h' | _ \<Rightarrow> False)"
    and tu: "\<forall>a. case mem u a of None \<Rightarrow> True
          | Some (Array blk) \<Rightarrow> mem t a = Some (Array blk)
          | Some (Handle h') \<Rightarrow>
              (case mem t a of Some (Handle h) \<Rightarrow> same_but_count h h' | _ \<Rightarrow> False)"
  from st [rule_format, of a] tu [rule_format, of a]
  show "case mem u a of None \<Rightarrow> True
          | Some (Array blk) \<Rightarrow> mem s a = Some (Array blk)
          | Some (Handle h') \<Rightarrow>
              (case mem s a of Some (Handle h) \<Rightarrow> same_but_count h h' | _ \<Rightarrow> False)"
    by (auto simp: same_but_count_def split: option.splits block.splits)
qed

lemma remains_HandleD:
  "remains s s' \<Longrightarrow> mem s' a = Some (Handle h') \<Longrightarrow>
     \<exists>h. mem s a = Some (Handle h) \<and> same_but_count h h'"
  unfolding remains_def by (erule allE [of _ a]) (auto split: option.splits block.splits)

lemma remains_ArrayD:
  "remains s s' \<Longrightarrow> mem s' a = Some (Array blk) \<Longrightarrow> mem s a = Some (Array blk)"
  unfolding remains_def by (erule allE [of _ a]) (auto split: option.splits block.splits)

lemma remains_count:
  "mem s a = Some (Handle h) \<Longrightarrow>
     remains s (s\<lparr>mem := (mem s)(a \<mapsto> Handle (h\<lparr>ref_count := c\<rparr>))\<rparr>)"
  by (auto simp: remains_def same_but_count_def split: option.splits block.splits)

lemma remains_destroy:
  assumes "a \<noteq> NULL" and "destroy_handle a s = Inr s'"
  shows "remains s s'"
proof -
  from destroy_handle_Inr [OF assms(2,1)] obtain h where
    "mem s a = Some (Handle h) \<and>
     mem s' = (if dependencies h = NULL then mem s
               else (mem s)(dependencies h := None))(a := None) \<and>
     trace s' = trace s @
        (if destructor h \<noteq> NULL then [Destructor_call (destructor h) (ptr h)] else []) @
        [Deallocate (dependencies h), Deallocate a]" ..
  then show ?thesis
    by (auto simp: remains_def same_but_count_def split: option.splits block.splits)
qed

lemma dec_ref_remains:
  "rclpy_handle_dec_ref n handle s = Inr s' \<Longrightarrow> remains s s'"
  using dec_ref_preserves [where R = remains and n = n and handle = handle and s = s and s' = s']
    remains_refl remains_trans remains_count remains_destroy by blast

lemma dec_ref_loop_remains:
  "dec_ref_loop n handle i s = Inr s' \<Longrightarrow> remains s s'"
  using dec_ref_preserves [where R = remains and n = n and handle = handle and s = s and s' = s'
      and i = i]
    remains_refl remains_trans remains_count remains_destroy by blast

lemma trace_grows_refl: "trace_grows s s"
  by (simp add: trace_grows_def)

lemma trace_grows_trans: "trace_grows s t \<Longrightarrow> trace_grows t u \<Longrightarrow> trace_grows s u"
  by (auto simp: trace_grows_def)

lemma trace_grows_count:
  "trace_grows s (s\<lparr>mem := (mem s)(a \<mapsto> Handle (h\<lparr>ref_count := c\<rparr>))\<rparr>)"
  by (simp add: trace_grows_def)

lemma trace_grows_destroy:
  assumes "a \<noteq> NULL" and "destroy_handle a s = Inr s'"
  shows "trace_grows s s'"
  using destroy_handle_Inr [OF assms(2,1)] by (auto simp: trace_grows_def)

lemma dec_ref_trace:
  "rclpy_handle_dec_ref n handle s = Inr s' \<Longrightarrow> trace_grows s s'"
  using dec_ref_preserves [where R = trace_grows and n = n and handle = handle and s = s
      and s' = s']
    trace_grows_refl trace_grows_trans trace_grows_count trace_grows_destroy by blast

lemma dec_ref_loop_trace:
  "dec_ref_loop n handle i s = Inr s' \<Longrightarrow> trace_grows s s'"
  using dec_ref_preserves [where R = trace_grows and n = n and handle = handle and s = s
      and s' = s' and i = i]
    trace_grows_refl trace_grows_trans trace_grows_count trace_grows_destroy by blast


subsection \<open>Release: the teardown branch\<close>

text \<open>A returning call on a live handle, taken apart.\<close>

lemma dec_ref_Inr_cases:
  assumes r: "rclpy_handle_dec_ref n handle s = Inr s'"
    and nn: "handle \<noteq> NULL" and h: "mem s handle = Some (Handle h)"
  shows "handle_assertion h \<and>
    (if ref_count h - 1 = 0
     then s' = s\<lparr>mem := (mem s)(handle \<mapsto> Handle (h\<lparr>ref_count := 0\<rparr>))\<rparr>
     else \<exists>m s2. n = Suc m \<and>
            dec_ref_loop m handle 0
              (s\<lparr>mem := (mem s)(handle \<mapsto> Handle (h\<lparr>ref_count := ref_count h - 1\<rparr>))\<rparr>)
              = Inr s2 \<and>
            destroy_handle handle s2 = Inr s')"
proof -
  from r obtain m where n: "n = Suc m"
    by (cases n) auto
  from r nn h show ?thesis
    unfolding n rclpy_handle_dec_ref.simps(2) [of m handle s]
    by (auto simp: Let_def split: if_splits sum.splits)
qed

lemma released_pair_10:
  "mem released_pair 10 = Some (Handle \<lparr>ptr = 100, ref_count = 0, dependencies = 30,
                            num_of_dependencies = 1, destructor = 7\<rparr>)"
  by (simp add: released_pair_def)

lemma released_pair_run:
  "\<exists>s'. rclpy_handle_dec_ref (Suc (Suc (Suc (Suc 0)))) 10 released_pair = Inr s'"
  by (simp add: released_pair_def handle_assertion_def NULL_def destroy_handle_def
      deallocate_def invoke_destructor_def)

lemma release_each_fuel_mono:
  "release_each n ds s = Inr s' \<Longrightarrow> n \<le> m \<Longrightarrow> release_each m ds s = Inr s'"
proof (induction ds arbitrary: s)
  case Nil
  then show ?case by simp
next
  case (Cons d ds)
  from Cons.prems(1) obtain s1 where 1: "rclpy_handle_dec_ref n d s = Inr s1"
    and 2: "release_each n ds s1 = Inr s'"
    by (auto split: sum.splits)
  from dec_ref_fuel_mono [OF 1 Cons.prems(2)] Cons.IH [OF 2 Cons.prems(2)] show ?case
    by simp
qed

lemma dependency_list_length: "length (dependency_list s h) \<le> unat (num_of_dependencies h)"
  by (simp add: dependency_list_def split: option.splits block.splits)

text \<open>
  A loop that returns and leaves its handle in the store has released the entries of the
  dependency list from its index on, one after the other.
\<close>

lemma loop_release_each:
  assumes "dec_ref_loop n handle i s = Inr s'"
    and "mem s' handle = Some (Handle h')"
    and "mem s handle = Some (Handle h)"
    and "handle_assertion h"
  shows "release_each n (drop (unat i) (dependency_list s h)) s = Inr s'"
  using assms
proof (induction n arbitrary: i s h)
  case 0
  then show ?case by simp
next
  case (Suc n)
  note r = Suc.prems(1) and h' = Suc.prems(2) and h = Suc.prems(3) and as = Suc.prems(4)
  let ?num = "num_of_dependencies h"
  show ?case
  proof (cases "i < ?num")
    case False
    then have "unat ?num \<le> unat i"
      by (simp add: word_less_nat_alt)
    with dependency_list_length [of s h] have "drop (unat i) (dependency_list s h) = []"
      by simp
    moreover from r h False have "s' = s"
      by simp
    ultimately show ?thesis
      by simp
  next
    case True
    with r h obtain blk s1 where blk: "mem s (dependencies h) = Some (Array blk)"
      and len: "unat i < length blk"
      and d: "rclpy_handle_dec_ref n (blk ! unat i) s = Inr s1"
      and l: "dec_ref_loop n handle (i + 1) s1 = Inr s'"
      by (auto split: option.splits block.splits if_splits sum.splits)
    from True have nz: "?num \<noteq> 0"
      by auto
    with as have dn: "dependencies h \<noteq> NULL"
      by (auto simp: handle_assertion_def)
    from dn blk have dl: "dependency_list s h = take (unat ?num) blk"
      by (simp add: dependency_list_def)
    from True have ui: "unat i < unat ?num"
      by (simp add: word_less_nat_alt)
    have u1: "unat (i + 1) = Suc (unat i)"
      using unat_succ [OF True] by simp
    from remains_HandleD [OF dec_ref_loop_remains [OF l] h'] obtain h1 where
      h1: "mem s1 handle = Some (Handle h1)"
      by blast
    from remains_HandleD [OF dec_ref_remains [OF d] h1] h
    have same: "same_but_count h h1"
      by auto
    then have as1: "handle_assertion h1"
      using as by (simp add: handle_assertion_def same_but_count_def)
    have rest: "drop (Suc (unat i)) (dependency_list s1 h1)
                = drop (Suc (unat i)) (dependency_list s h)"
    proof (cases "i + 1 < ?num")
      case True
      with l h1 same obtain blk1 where "mem s1 (dependencies h1) = Some (Array blk1)"
        by (cases n) (auto simp: same_but_count_def split: option.splits block.splits)
      from remains_ArrayD [OF dec_ref_remains [OF d] this] same blk
      have "mem s1 (dependencies h) = Some (Array blk)"
        using \<open>mem s1 (dependencies h1) = Some (Array blk1)\<close>
        by (simp add: same_but_count_def)
      with dn blk same show ?thesis
        by (simp add: dependency_list_def same_but_count_def)
    next
      case False
      then have "unat ?num \<le> Suc (unat i)"
        using u1 by (simp add: word_less_nat_alt)
      with dependency_list_length [of s h] dependency_list_length [of s1 h1] same
      show ?thesis
        by (simp add: same_but_count_def)
    qed
    from Suc.IH [OF l h' h1 as1]
    have "release_each n (drop (Suc (unat i)) (dependency_list s h)) s1 = Inr s'"
      unfolding u1 rest .
    then have a: "release_each (Suc n) (drop (Suc (unat i)) (dependency_list s h)) s1 = Inr s'"
      by (rule release_each_fuel_mono) simp
    from d have b: "rclpy_handle_dec_ref (Suc n) (blk ! unat i) s = Inr s1"
      by (rule dec_ref_fuel_mono) simp
    have "drop (unat i) (dependency_list s h)
          = blk ! unat i # drop (Suc (unat i)) (dependency_list s h)"
      unfolding dl using ui len by (simp add: Cons_nth_drop_Suc [symmetric])
    with a b show ?thesis
      by (simp del: rclpy_handle_dec_ref.simps)
  qed
qed

lemma dependency_list_count:
  assumes "mem s handle = Some (Handle h)"
  shows "dependency_list (s\<lparr>mem := (mem s)(handle \<mapsto> Handle h1)\<rparr>) (h\<lparr>ref_count := c\<rparr>)
         = dependency_list s h"
  using assms by (auto simp: dependency_list_def split: option.splits block.splits)

text \<open>
  Claim C7: the order of the teardown. A returning call whose decremented count is not zero
  has first released every entry of the dependency list in the order of the list, one call
  per stored entry, duplicates included (\<open>release_each\<close>, started in the state right after
  the decrement); after that its events are the destructor call on the resource pointer,
  once and only when the destructor is not null, then \<open>deallocate\<close> of the dependency array,
  then \<open>deallocate\<close> of the handle, and these two blocks have left the store.
\<close>

theorem teardown_order:
  assumes r: "rclpy_handle_dec_ref n handle s = Inr s'"
    and nn: "handle \<noteq> NULL" and h: "mem s handle = Some (Handle h)"
    and nz: "ref_count h - 1 \<noteq> 0"
  shows "\<exists>s2. release_each n (dependency_list s h)
                (s\<lparr>mem := (mem s)(handle \<mapsto> Handle (h\<lparr>ref_count := ref_count h - 1\<rparr>))\<rparr>)
                = Inr s2 \<and>
     trace s' = trace s2 @
        (if destructor h \<noteq> NULL then [Destructor_call (destructor h) (ptr h)] else []) @
        [Deallocate (dependencies h), Deallocate handle] \<and>
     mem s' = (if dependencies h = NULL then mem s2
               else (mem s2)(dependencies h := None))(handle := None)"
proof -
  let ?h1 = "h\<lparr>ref_count := ref_count h - 1\<rparr>"
  let ?s1 = "s\<lparr>mem := (mem s)(handle \<mapsto> Handle ?h1)\<rparr>"
  from nz dec_ref_Inr_cases [OF r nn h] obtain m s2 where
    n: "n = Suc m" and as: "handle_assertion h"
    and l: "dec_ref_loop m handle 0 ?s1 = Inr s2" and d: "destroy_handle handle s2 = Inr s'"
    by auto
  from destroy_handle_Inr [OF d nn] obtain h2 where
    h2: "mem s2 handle = Some (Handle h2)"
    and m': "mem s' = (if dependencies h2 = NULL then mem s2
               else (mem s2)(dependencies h2 := None))(handle := None)"
    and t': "trace s' = trace s2 @
        (if destructor h2 \<noteq> NULL then [Destructor_call (destructor h2) (ptr h2)] else []) @
        [Deallocate (dependencies h2), Deallocate handle]"
    by blast
  have h1: "mem ?s1 handle = Some (Handle ?h1)"
    by simp
  from as have as1: "handle_assertion ?h1"
    by (simp add: handle_assertion_def)
  from remains_HandleD [OF dec_ref_loop_remains [OF l] h2]
  have same: "destructor h2 = destructor h" "ptr h2 = ptr h" "dependencies h2 = dependencies h"
    by (auto simp: same_but_count_def)
  from loop_release_each [OF l h2 h1 as1]
  have "release_each m (dependency_list s h) ?s1 = Inr s2"
    by (simp add: dependency_list_count [OF h])
  then have "release_each n (dependency_list s h) ?s1 = Inr s2"
    by (rule release_each_fuel_mono) (simp add: n)
  with m' t' same show ?thesis
    by simp
qed

theorem teardown_order_witness:
  "\<exists>s' s2. rclpy_handle_dec_ref (Suc (Suc (Suc (Suc 0)))) 10 released_pair = Inr s' \<and>
     release_each (Suc (Suc (Suc (Suc 0)))) [20]
       (released_pair\<lparr>mem := (mem released_pair)(10 \<mapsto>
          Handle \<lparr>ptr = 100, ref_count = - 1, dependencies = 30,
                  num_of_dependencies = 1, destructor = 7\<rparr>)\<rparr>) = Inr s2 \<and>
     trace s' = trace s2 @ [Destructor_call 7 100, Deallocate 30, Deallocate 10] \<and>
     mem s' = (mem s2)(30 := None, 10 := None)"
proof -
  from released_pair_run obtain s' where
    r: "rclpy_handle_dec_ref (Suc (Suc (Suc (Suc 0)))) 10 released_pair = Inr s'"
    by blast
  have n: "(10::nat) \<noteq> NULL"
    by (simp add: NULL_def)
  have z: "ref_count \<lparr>ptr = 100, ref_count = 0, dependencies = 30,
                            num_of_dependencies = 1, destructor = 7\<rparr> - 1 \<noteq> 0"
    by simp
  have l: "dependency_list released_pair \<lparr>ptr = 100, ref_count = 0, dependencies = 30,
                            num_of_dependencies = 1, destructor = 7\<rparr> = [20]"
    by (simp add: dependency_list_def released_pair_def NULL_def)
  from teardown_order [OF r n released_pair_10 z] r show ?thesis
    unfolding l by (simp add: NULL_def)
qed

lemma release_each_trace:
  "release_each n ds s = Inr s' \<Longrightarrow> trace_grows s s'"
proof (induction ds arbitrary: s)
  case Nil
  then show ?case by (simp add: trace_grows_refl)
next
  case (Cons d ds)
  from Cons.prems obtain s1 where 1: "rclpy_handle_dec_ref n d s = Inr s1"
    and 2: "release_each n ds s1 = Inr s'"
    by (auto split: sum.splits)
  from dec_ref_trace [OF 1] Cons.IH [OF 2] show ?case
    by (rule trace_grows_trans)
qed

lemma released_pair_outcome:
  "\<exists>s'. rclpy_handle_dec_ref (Suc (Suc (Suc (Suc 0)))) 10 released_pair = Inr s' \<and>
     trace s' = [Destructor_call 8 200, Deallocate NULL, Deallocate 20,
                 Destructor_call 7 100, Deallocate 30, Deallocate 10] \<and>
     mem s' 20 = None \<and> mem s' 30 = None"
  by (simp add: released_pair_def handle_assertion_def NULL_def destroy_handle_def
      deallocate_def invoke_destructor_def)

text \<open>
  Claim C3: in \<open>_rclpy_handle_dec_ref\<close> as implemented the teardown branch runs if and only
  if the reference count after the decrement is not zero. For a returning call on a live
  handle, each of the following holds exactly when the decremented count is not zero: the
  handle has left the store; \<open>deallocate\<close> was called on the handle; \<open>deallocate\<close> was
  called on its dependency array; its destructor (when it has one) was called; and the
  whole branch ran, that is, the final state is the one reached by releasing every entry of
  the dependency list in order from the state right after the decrement, then calling the
  destructor, then deallocating the array and the handle. When the decremented count is
  zero the call changed nothing but the count.
\<close>

theorem dec_ref_teardown_iff:
  assumes r: "rclpy_handle_dec_ref n handle s = Inr s'"
    and nn: "handle \<noteq> NULL" and h: "mem s handle = Some (Handle h)"
  shows "(mem s' handle = None \<longleftrightarrow> ref_count h - 1 \<noteq> 0) \<and>
         (Deallocate handle \<in> set (new_events s s') \<longleftrightarrow> ref_count h - 1 \<noteq> 0) \<and>
         (Deallocate (dependencies h) \<in> set (new_events s s') \<longleftrightarrow> ref_count h - 1 \<noteq> 0) \<and>
         (destructor h \<noteq> NULL \<longrightarrow>
            (Destructor_call (destructor h) (ptr h) \<in> set (new_events s s')
               \<longleftrightarrow> ref_count h - 1 \<noteq> 0)) \<and>
         ((\<exists>s2. release_each n (dependency_list s h)
                  (s\<lparr>mem := (mem s)(handle \<mapsto> Handle (h\<lparr>ref_count := ref_count h - 1\<rparr>))\<rparr>)
                  = Inr s2 \<and>
                trace s' = trace s2 @
                  (if destructor h \<noteq> NULL then [Destructor_call (destructor h) (ptr h)]
                   else []) @
                  [Deallocate (dependencies h), Deallocate handle] \<and>
                mem s' = (if dependencies h = NULL then mem s2
                          else (mem s2)(dependencies h := None))(handle := None))
            \<longleftrightarrow> ref_count h - 1 \<noteq> 0) \<and>
         (ref_count h - 1 = 0 \<longrightarrow>
            s' = s\<lparr>mem := (mem s)(handle \<mapsto> Handle (h\<lparr>ref_count := 0\<rparr>))\<rparr>)"
proof (cases "ref_count h - 1 = 0")
  case True
  let ?s1 = "s\<lparr>mem := (mem s)(handle \<mapsto> Handle (h\<lparr>ref_count := ref_count h - 1\<rparr>))\<rparr>"
  from True dec_ref_Inr_cases [OF r nn h]
  have s': "s' = s\<lparr>mem := (mem s)(handle \<mapsto> Handle (h\<lparr>ref_count := 0\<rparr>))\<rparr>"
    by simp
  have no: "\<not> (\<exists>s2. release_each n (dependency_list s h) ?s1 = Inr s2 \<and>
                trace s' = trace s2 @
                  (if destructor h \<noteq> NULL then [Destructor_call (destructor h) (ptr h)]
                   else []) @
                  [Deallocate (dependencies h), Deallocate handle] \<and>
                mem s' = (if dependencies h = NULL then mem s2
                          else (mem s2)(dependencies h := None))(handle := None))"
  proof
    assume "\<exists>s2. release_each n (dependency_list s h) ?s1 = Inr s2 \<and>
                trace s' = trace s2 @
                  (if destructor h \<noteq> NULL then [Destructor_call (destructor h) (ptr h)]
                   else []) @
                  [Deallocate (dependencies h), Deallocate handle] \<and>
                mem s' = (if dependencies h = NULL then mem s2
                          else (mem s2)(dependencies h := None))(handle := None)"
    then obtain s2 where e: "release_each n (dependency_list s h) ?s1 = Inr s2"
      and m: "mem s' = (if dependencies h = NULL then mem s2
                          else (mem s2)(dependencies h := None))(handle := None)"
      by blast
    from m have "mem s' handle = None"
      by simp
    with s' show False
      by simp
  qed
  from s' True have "new_events s s' = []" and "mem s' handle \<noteq> None"
    by (simp_all add: new_events_def)
  with True s' no show ?thesis
    by simp
next
  case False
  let ?h1 = "h\<lparr>ref_count := ref_count h - 1\<rparr>"
  let ?s1 = "s\<lparr>mem := (mem s)(handle \<mapsto> Handle ?h1)\<rparr>"
  from False dec_ref_Inr_cases [OF r nn h] obtain m s2 where
    n: "n = Suc m" and as: "handle_assertion h"
    and l: "dec_ref_loop m handle 0 ?s1 = Inr s2" and d: "destroy_handle handle s2 = Inr s'"
    by auto
  from destroy_handle_Inr [OF d nn] obtain h2 where
    h2: "mem s2 handle = Some (Handle h2)"
    and m': "mem s' = (if dependencies h2 = NULL then mem s2
               else (mem s2)(dependencies h2 := None))(handle := None)"
    and t': "trace s' = trace s2 @
        (if destructor h2 \<noteq> NULL then [Destructor_call (destructor h2) (ptr h2)] else []) @
        [Deallocate (dependencies h2), Deallocate handle]"
    by blast
  have h1: "mem ?s1 handle = Some (Handle ?h1)"
    by simp
  from as have as1: "handle_assertion ?h1"
    by (simp add: handle_assertion_def)
  from remains_HandleD [OF dec_ref_loop_remains [OF l] h2]
  have same: "destructor h2 = destructor h" "ptr h2 = ptr h" "dependencies h2 = dependencies h"
    by (auto simp: same_but_count_def)
  from loop_release_each [OF l h2 h1 as1]
  have "release_each m (dependency_list s h) ?s1 = Inr s2"
    by (simp add: dependency_list_count [OF h])
  then have re: "release_each n (dependency_list s h) ?s1 = Inr s2"
    by (rule release_each_fuel_mono) (simp add: n)
  from release_each_trace [OF re] obtain evs where "trace s2 = trace s @ evs"
    by (auto simp: trace_grows_def)
  with t' same have ne: "new_events s s' = evs @
        (if destructor h \<noteq> NULL then [Destructor_call (destructor h) (ptr h)] else []) @
        [Deallocate (dependencies h), Deallocate handle]"
    by (simp add: new_events_def)
  from re m' t' same
  have ex: "\<exists>s2. release_each n (dependency_list s h) ?s1 = Inr s2 \<and>
                trace s' = trace s2 @
                  (if destructor h \<noteq> NULL then [Destructor_call (destructor h) (ptr h)]
                   else []) @
                  [Deallocate (dependencies h), Deallocate handle] \<and>
                mem s' = (if dependencies h = NULL then mem s2
                          else (mem s2)(dependencies h := None))(handle := None)"
    by (intro exI [of _ s2]) simp
  from m' have gone: "mem s' handle = None"
    by simp
  from False gone ne ex show ?thesis
    by simp
qed

theorem dec_ref_teardown_iff_witness:
  "\<exists>s'. rclpy_handle_dec_ref (Suc (Suc (Suc (Suc 0)))) 10 released_pair = Inr s' \<and>
     10 \<noteq> NULL \<and> mem s' 10 = None \<and> mem s' 20 = None \<and> mem s' 30 = None \<and>
     trace s' = [Destructor_call 8 200, Deallocate NULL, Deallocate 20,
                 Destructor_call 7 100, Deallocate 30, Deallocate 10] \<and>
     Deallocate 10 \<in> set (new_events released_pair s') \<and>
     Deallocate 30 \<in> set (new_events released_pair s') \<and>
     Destructor_call 7 100 \<in> set (new_events released_pair s') \<and>
     (\<exists>s2. release_each (Suc (Suc (Suc (Suc 0)))) [20]
              (released_pair\<lparr>mem := (mem released_pair)(10 \<mapsto>
                 Handle \<lparr>ptr = 100, ref_count = - 1, dependencies = 30,
                         num_of_dependencies = 1, destructor = 7\<rparr>)\<rparr>) = Inr s2 \<and>
            trace s' = trace s2 @ [Destructor_call 7 100, Deallocate 30, Deallocate 10] \<and>
            mem s' = (mem s2)(30 := None, 10 := None))"
proof -
  from released_pair_outcome obtain s' where
    r: "rclpy_handle_dec_ref (Suc (Suc (Suc (Suc 0)))) 10 released_pair = Inr s'"
    and t: "trace s' = [Destructor_call 8 200, Deallocate NULL, Deallocate 20,
                 Destructor_call 7 100, Deallocate 30, Deallocate 10]"
    and g: "mem s' 20 = None" "mem s' 30 = None"
    by blast
  have n: "(10::nat) \<noteq> NULL"
    by (simp add: NULL_def)
  have l: "dependency_list released_pair \<lparr>ptr = 100, ref_count = 0, dependencies = 30,
                            num_of_dependencies = 1, destructor = 7\<rparr> = [20]"
    by (simp add: dependency_list_def released_pair_def NULL_def)
  from dec_ref_teardown_iff [OF r n released_pair_10] r n t g show ?thesis
    unfolding l by (simp add: NULL_def)
qed

subsection \<open>Release: termination\<close>

lemma depends_on_finite:
  assumes "finite (dom (mem s))"
  shows "finite (depends_on s)"
proof -
  let ?deps = "\<lambda>a. case mem s a of Some (Handle h) \<Rightarrow> set (dependency_list s h) | _ \<Rightarrow> {}"
  have "depends_on s \<subseteq> (\<Union>a\<in>dom (mem s). (\<lambda>d. (d, a)) ` ?deps a)"
    by (auto simp: depends_on_def)
  moreover have "finite (\<Union>a\<in>dom (mem s). (\<lambda>d. (d, a)) ` ?deps a)"
    using assms by (auto split: option.splits block.splits)
  ultimately show ?thesis
    by (rule finite_subset)
qed

lemma dec_ref_ends_step:
  assumes "\<And>h. mem s handle = Some (Handle h) \<Longrightarrow> handle_assertion h \<Longrightarrow>
             ref_count h - 1 \<noteq> 0 \<Longrightarrow>
             dec_ref_loop n handle 0
               (s\<lparr>mem := (mem s)(handle \<mapsto> Handle (h\<lparr>ref_count := ref_count h - 1\<rparr>))\<rparr>)
             \<noteq> Inl Out_of_fuel"
  shows "rclpy_handle_dec_ref (Suc n) handle s \<noteq> Inl Out_of_fuel"
  using assms destroy_handle_fuel
  unfolding rclpy_handle_dec_ref.simps(2) [of n handle s]
  by (auto simp: Let_def split: option.splits block.splits sum.splits)

lemma dec_ref_loop_ends_step:
  assumes "\<And>h blk. mem s handle = Some (Handle h) \<Longrightarrow> i < num_of_dependencies h \<Longrightarrow>
             mem s (dependencies h) = Some (Array blk) \<Longrightarrow> unat i < length blk \<Longrightarrow>
             (case rclpy_handle_dec_ref n (blk ! unat i) s of
                Inl e \<Rightarrow> e \<noteq> Out_of_fuel
              | Inr s1 \<Rightarrow> dec_ref_loop n handle (i + 1) s1 \<noteq> Inl Out_of_fuel)"
  shows "dec_ref_loop (Suc n) handle i s \<noteq> Inl Out_of_fuel"
proof (cases "\<exists>h blk. mem s handle = Some (Handle h) \<and> i < num_of_dependencies h \<and>
                mem s (dependencies h) = Some (Array blk) \<and> unat i < length blk")
  case True
  then obtain h blk where f: "mem s handle = Some (Handle h)" "i < num_of_dependencies h"
    "mem s (dependencies h) = Some (Array blk)" "unat i < length blk"
    by blast
  from assms [OF f] f show ?thesis
    unfolding dec_ref_loop.simps(2) [of n handle i s]
    by (simp split: sum.splits)
next
  case False
  then show ?thesis
    unfolding dec_ref_loop.simps(2) [of n handle i s]
    by (auto split: option.splits block.splits)
qed

lemma dec_ref_loop_ends:
  assumes ih: "\<And>d t. (d, a) \<in> depends_on s \<Longrightarrow> remains s t \<Longrightarrow>
                 \<exists>n. rclpy_handle_dec_ref n d t \<noteq> Inl Out_of_fuel"
    and h0: "mem s a = Some (Handle h0)" and as: "handle_assertion h0"
    and rem: "remains s t"
  shows "\<exists>n. dec_ref_loop n a i t \<noteq> Inl Out_of_fuel"
  using rem
proof (induction "unat (num_of_dependencies h0) - unat i" arbitrary: i t rule: less_induct)
  case less
  note rem = less.prems
  show ?case
  proof (cases "\<exists>h blk. mem t a = Some (Handle h) \<and> i < num_of_dependencies h \<and>
                  mem t (dependencies h) = Some (Array blk) \<and> unat i < length blk")
    case False
    then have "dec_ref_loop (Suc 0) a i t \<noteq> Inl Out_of_fuel"
      by (intro dec_ref_loop_ends_step) blast
    then show ?thesis ..
  next
    case True
    then obtain h blk where f: "mem t a = Some (Handle h)" "i < num_of_dependencies h"
      "mem t (dependencies h) = Some (Array blk)" "unat i < length blk"
      by blast
    from remains_HandleD [OF rem f(1)] h0 have same: "same_but_count h0 h"
      by auto
    then have num: "num_of_dependencies h = num_of_dependencies h0"
      and dep: "dependencies h = dependencies h0"
      by (simp_all add: same_but_count_def)
    from f(2) num have lt: "unat i < unat (num_of_dependencies h0)"
      by (simp add: word_less_nat_alt)
    from f(2) num as have "dependencies h0 \<noteq> NULL"
      by (auto simp: handle_assertion_def)
    moreover from remains_ArrayD [OF rem f(3)] dep
    have "mem s (dependencies h0) = Some (Array blk)"
      by simp
    ultimately have "dependency_list s h0 = take (unat (num_of_dependencies h0)) blk"
      by (simp add: dependency_list_def)
    with lt f(4) have "blk ! unat i \<in> set (dependency_list s h0)"
      by (metis in_set_conv_nth length_take min_less_iff_conj nth_take)
    with h0 have edge: "(blk ! unat i, a) \<in> depends_on s"
      by (auto simp: depends_on_def)
    from ih [OF edge rem] obtain n1 where
      n1: "rclpy_handle_dec_ref n1 (blk ! unat i) t \<noteq> Inl Out_of_fuel"
      by blast
    have "\<exists>n. case rclpy_handle_dec_ref n (blk ! unat i) t of
                Inl e \<Rightarrow> e \<noteq> Out_of_fuel
              | Inr s1 \<Rightarrow> dec_ref_loop n a (i + 1) s1 \<noteq> Inl Out_of_fuel"
    proof (cases "rclpy_handle_dec_ref n1 (blk ! unat i) t")
      case (Inl e)
      with n1 show ?thesis
        by (intro exI [of _ n1]) auto
    next
      case (Inr t2)
      from dec_ref_remains [OF Inr] rem have rem2: "remains s t2"
        by (blast intro: remains_trans)
      have "unat (i + 1) = unat i + 1"
        using f(2) by (rule unat_succ)
      with lt have "unat (num_of_dependencies h0) - unat (i + 1)
                    < unat (num_of_dependencies h0) - unat i"
        by simp
      from less.hyps [OF this rem2] obtain n2 where
        n2: "dec_ref_loop n2 a (i + 1) t2 \<noteq> Inl Out_of_fuel"
        by blast
      let ?n = "max n1 n2"
      from Inr have "rclpy_handle_dec_ref ?n (blk ! unat i) t = Inr t2"
        by (rule dec_ref_fuel_mono) simp
      moreover from n2 fuel_mono [of n2 ?n a t2 "i + 1"]
      have "dec_ref_loop ?n a (i + 1) t2 \<noteq> Inl Out_of_fuel"
        by simp
      ultimately show ?thesis
        by (intro exI [of _ ?n]) simp
    qed
    then obtain n where n: "case rclpy_handle_dec_ref n (blk ! unat i) t of
                Inl e \<Rightarrow> e \<noteq> Out_of_fuel
              | Inr s1 \<Rightarrow> dec_ref_loop n a (i + 1) s1 \<noteq> Inl Out_of_fuel"
      by blast
    have "dec_ref_loop (Suc n) a i t \<noteq> Inl Out_of_fuel"
    proof (rule dec_ref_loop_ends_step)
      fix h' blk'
      assume "mem t a = Some (Handle h')" "mem t (dependencies h') = Some (Array blk')"
      with f have "blk' = blk"
        by simp
      with n show "case rclpy_handle_dec_ref n (blk' ! unat i) t of
                Inl e \<Rightarrow> e \<noteq> Out_of_fuel
              | Inr s1 \<Rightarrow> dec_ref_loop n a (i + 1) s1 \<noteq> Inl Out_of_fuel"
        by simp
    qed
    then show ?thesis ..
  qed
qed

lemma dec_ref_ends:
  assumes "wf (depends_on s)" and "remains s t"
  shows "\<exists>n. rclpy_handle_dec_ref n a t \<noteq> Inl Out_of_fuel"
  using assms
proof (induction a arbitrary: t rule: wf_induct_rule)
  case (less a)
  note rem = less.prems
  show ?case
  proof (cases "\<exists>h. mem t a = Some (Handle h) \<and> handle_assertion h \<and> ref_count h - 1 \<noteq> 0")
    case False
    then have "rclpy_handle_dec_ref (Suc 0) a t \<noteq> Inl Out_of_fuel"
      by (intro dec_ref_ends_step) blast
    then show ?thesis ..
  next
    case True
    then obtain h where h: "mem t a = Some (Handle h)" and as: "handle_assertion h"
      by blast
    let ?t1 = "t\<lparr>mem := (mem t)(a \<mapsto> Handle (h\<lparr>ref_count := ref_count h - 1\<rparr>))\<rparr>"
    from remains_HandleD [OF rem h] obtain h0 where h0: "mem s a = Some (Handle h0)"
      and same: "same_but_count h0 h"
      by blast
    from same as have as0: "handle_assertion h0"
      by (simp add: handle_assertion_def same_but_count_def)
    from rem remains_count [OF h] have rem1: "remains s ?t1"
      by (rule remains_trans)
    have "\<exists>n. dec_ref_loop n a 0 ?t1 \<noteq> Inl Out_of_fuel"
      using less.IH h0 as0 rem1 by (rule dec_ref_loop_ends)
    then obtain n where n: "dec_ref_loop n a 0 ?t1 \<noteq> Inl Out_of_fuel"
      by blast
    have "rclpy_handle_dec_ref (Suc n) a t \<noteq> Inl Out_of_fuel"
    proof (rule dec_ref_ends_step)
      fix h'
      assume "mem t a = Some (Handle h')"
      with h have "h' = h"
        by simp
      with n show "dec_ref_loop n a 0
           (t\<lparr>mem := (mem t)(a \<mapsto> Handle (h'\<lparr>ref_count := ref_count h' - 1\<rparr>))\<rparr>)
           \<noteq> Inl Out_of_fuel"
        by simp
    qed
    then show ?thesis ..
  qed
qed

lemma depends_on_released_pair: "depends_on released_pair = {(20, 10)}"
  by (auto simp: depends_on_def dependency_list_def released_pair_def NULL_def
      split: if_splits)

text \<open>
  Claim C9: on a finite store whose dependency graph is acyclic, \<open>_rclpy_handle_dec_ref\<close>
  terminates: some finite amount of fuel is enough for the run to end, and with any larger
  amount it ends in the same way. The run ends by returning or by stopping at an access or
  assertion that the model counts as a stop; it never needs unbounded recursion.
\<close>

theorem dec_ref_terminates:
  assumes "finite (dom (mem s))" and "acyclic (depends_on s)"
  shows "\<exists>n. \<forall>m\<ge>n. rclpy_handle_dec_ref m handle s = rclpy_handle_dec_ref n handle s \<and>
           rclpy_handle_dec_ref m handle s \<noteq> Inl Out_of_fuel"
proof -
  from assms(1) have "finite (depends_on s)"
    by (rule depends_on_finite)
  then have "wf (depends_on s)"
    using assms(2) by (rule finite_acyclic_wf)
  from dec_ref_ends [OF this remains_refl] obtain n where
    n: "rclpy_handle_dec_ref n handle s \<noteq> Inl Out_of_fuel"
    by blast
  have "rclpy_handle_dec_ref m handle s = rclpy_handle_dec_ref n handle s" if "n \<le> m" for m
    using fuel_mono [OF that, of handle s 0] n by blast
  with n show ?thesis
    by metis
qed

theorem dec_ref_terminates_witness:
  "finite (dom (mem released_pair)) \<and> acyclic (depends_on released_pair) \<and>
   (\<exists>n. \<forall>m\<ge>n. rclpy_handle_dec_ref m 10 released_pair = rclpy_handle_dec_ref n 10 released_pair \<and>
           rclpy_handle_dec_ref m 10 released_pair \<noteq> Inl Out_of_fuel)"
proof -
  have f: "finite (dom (mem released_pair))"
    by (simp add: released_pair_def)
  have a: "acyclic (depends_on released_pair)"
  proof -
    have "acyclic ({} :: (addr \<times> addr) set)"
      by (simp add: acyclic_def)
    then show ?thesis
      unfolding depends_on_released_pair by (simp add: acyclic_insert)
  qed
  from dec_ref_terminates [OF f a] f a show ?thesis
    by blast
qed

subsection \<open>The code at the inputs where it departs from its documentation\<close>

text \<open>
  Claim C1 says that releasing a handle with no dependencies and reference count 1 invokes
  its destructor once and tears the handle down, as the comment above
  \<open>_rclpy_handle_dec_ref\<close> promises (``if it reaches zero ... \<open>handle\<close> is deallocated'').
  The code at such a handle, fresh from \<open>_rclpy_create_handle\<close> with destructor 7: the call
  returns with the count at 0, no event took place and the handle is still in the store.
\<close>

theorem dec_ref_sole_claim_no_teardown:
  "\<exists>s1 s2. rclpy_create_handle 100 7 empty_heap = Inr (10, s1) \<and>
     rclpy_handle_dec_ref (Suc 0) 10 s1 = Inr s2 \<and>
     trace s2 = [] \<and>
     mem s2 10 = Some (Handle \<lparr>ptr = 100, ref_count = 0, dependencies = NULL,
                               num_of_dependencies = 0, destructor = 7\<rparr>)"
  by (simp add: rclpy_create_handle_def zero_allocate_def empty_heap_def NULL_def
      zero_handle_def handle_assertion_def)

text \<open>
  Claim C2 says that releasing a handle whose reference count is greater than 1 does not
  invoke its destructor and only decrements the count. The code at handle 20 with count 2,
  which handle 10 depends on: the destructor of 20 is called, 20 is deallocated, and the
  dependency list of 10 still holds the pointer.
\<close>

theorem dec_ref_shared_handle_torn_down:
  "\<exists>s1 s2. rclpy_handle_add_dependency 10 20 two_handles = Inr (RCUTILS_RET_OK, s1) \<and>
     mem s1 20 = Some (Handle \<lparr>ptr = 200, ref_count = 2, dependencies = NULL,
                               num_of_dependencies = 0, destructor = 8\<rparr>) \<and>
     rclpy_handle_dec_ref (Suc (Suc 0)) 20 s1 = Inr s2 \<and>
     trace s2 = [Destructor_call 8 200, Deallocate NULL, Deallocate 20] \<and>
     mem s2 20 = None \<and>
     (\<exists>h. mem s2 10 = Some (Handle h) \<and> dependency_list s2 h = [20])"
  by (simp add: rclpy_handle_add_dependency_def two_handles_def reallocate_def NULL_def
        sizeof_ptr_def resize_def handle_assertion_def destroy_handle_def deallocate_def
        invoke_destructor_def dependency_list_def)

text \<open>
  Claim C4 says that a failed reallocation in \<open>_rclpy_handle_add_dependency\<close> leaves both
  handles as they were. The code with an allocator that has nothing to give: the call
  returns \<open>RCUTILS_RET_ERROR\<close>, but \<open>num_of_dependencies\<close> of the dependent was incremented
  before the reallocation and stays at 1 beside a null \<open>dependencies\<close> pointer, so that the
  next release of the dependent fails the assertion at its entry.
\<close>

theorem add_dependency_failure_changes_dependent:
  "\<exists>s1. rclpy_handle_add_dependency 10 20 (two_handles\<lparr>allocator := []\<rparr>)
            = Inr (RCUTILS_RET_ERROR, s1) \<and>
     mem s1 10 = Some (Handle \<lparr>ptr = 100, ref_count = 1, dependencies = NULL,
                               num_of_dependencies = 1, destructor = 7\<rparr>) \<and>
     mem s1 10 \<noteq> mem two_handles 10 \<and>
     rclpy_handle_dec_ref (Suc 0) 10 s1 = Inl Assertion_failed"
  by (simp add: rclpy_handle_add_dependency_def two_handles_def reallocate_def NULL_def
        sizeof_ptr_def handle_assertion_def)

end
